theory Spec2Isabelle
  imports Complex_Main "HOL-Library.Word"
begin

section \<open>Numbers of the program\<close>

text \<open>
  The program computes with JavaScript numbers. Every number it handles is a byte count, an
  offset, a segment count or an HTTP status: an integer, or one of the three values
  that a division by zero and a failed \<^verbatim>\<open>parseInt\<close> produce. The model keeps exactly these
  values. Integers are unbounded here (the program's are exact up to \<open>2^53\<close>), and the sign of
  zero is not kept: every divisor in the program is either positive or the integer returned by
  the configured count function.
\<close>

datatype jsnum = Fin int | PInf | NInf | NaN

text \<open>\<^verbatim>\<open>a <= b\<close> and \<^verbatim>\<open>a < b\<close>: false as soon as one side is \<open>NaN\<close>.\<close>

fun jle :: "jsnum \<Rightarrow> jsnum \<Rightarrow> bool" where
  "jle NaN _ = False"
| "jle _ NaN = False"
| "jle NInf _ = True"
| "jle _ PInf = True"
| "jle (Fin a) (Fin b) = (a \<le> b)"
| "jle PInf _ = False"
| "jle (Fin a) NInf = False"

fun jlt :: "jsnum \<Rightarrow> jsnum \<Rightarrow> bool" where
  "jlt NaN _ = False"
| "jlt _ NaN = False"
| "jlt (Fin a) (Fin b) = (a < b)"
| "jlt NInf NInf = False"
| "jlt NInf _ = True"
| "jlt PInf _ = False"
| "jlt (Fin a) PInf = True"
| "jlt (Fin a) NInf = False"

text \<open>\<^verbatim>\<open>a + b\<close>, \<^verbatim>\<open>a - b\<close> and \<^verbatim>\<open>a * b\<close>.\<close>

fun jadd :: "jsnum \<Rightarrow> jsnum \<Rightarrow> jsnum" where
  "jadd (Fin a) (Fin b) = Fin (a + b)"
| "jadd NaN _ = NaN"
| "jadd _ NaN = NaN"
| "jadd PInf NInf = NaN"
| "jadd NInf PInf = NaN"
| "jadd PInf _ = PInf"
| "jadd NInf _ = NInf"
| "jadd (Fin a) b = b"

fun jneg :: "jsnum \<Rightarrow> jsnum" where
  "jneg (Fin a) = Fin (- a)"
| "jneg PInf = NInf"
| "jneg NInf = PInf"
| "jneg NaN = NaN"

definition jsub :: "jsnum \<Rightarrow> jsnum \<Rightarrow> jsnum" where
  "jsub a b = jadd a (jneg b)"

text \<open>The sign of a number: \<open>-1\<close>, \<open>0\<close>, \<open>1\<close>, and \<open>None\<close> for \<open>NaN\<close>.\<close>

fun jsign :: "jsnum \<Rightarrow> int option" where
  "jsign (Fin a) = Some (sgn a)"
| "jsign PInf = Some 1"
| "jsign NInf = Some (- 1)"
| "jsign NaN = None"

fun jmul :: "jsnum \<Rightarrow> jsnum \<Rightarrow> jsnum" where
  "jmul (Fin a) (Fin b) = Fin (a * b)"
| "jmul a b =
     (case (jsign a, jsign b) of
        (Some s, Some t) \<Rightarrow> (if s * t = 0 then NaN else if 0 < s * t then PInf else NInf)
      | _ \<Rightarrow> NaN)"

text \<open>
  \<^verbatim>\<open>Math.ceil(a / b)\<close>. On integers with \<open>b \<noteq> 0\<close> it is the ceiling of the quotient; a
  non-zero integer over zero is an infinity, zero over zero is \<open>NaN\<close>; an integer over an
  infinity is zero; an infinity over an integer keeps or flips its sign (a zero divisor counts
  as positive); an infinity over an infinity is \<open>NaN\<close>.
\<close>

fun jceildiv :: "jsnum \<Rightarrow> jsnum \<Rightarrow> jsnum" where
  "jceildiv (Fin a) (Fin b) =
     (if b \<noteq> 0 then Fin (- ((- a) div b))
      else if 0 < a then PInf else if a < 0 then NInf else NaN)"
| "jceildiv NaN _ = NaN"
| "jceildiv _ NaN = NaN"
| "jceildiv (Fin a) _ = Fin 0"
| "jceildiv PInf (Fin b) = (if 0 \<le> b then PInf else NInf)"
| "jceildiv NInf (Fin b) = (if 0 \<le> b then NInf else PInf)"
| "jceildiv _ _ = NaN"

text \<open>
  Numbers in a template string: decimal digits, with a minus sign when negative (the program's
  numbers print this way below \<open>10^21\<close>).
\<close>

definition digit_char :: "nat \<Rightarrow> char" where
  "digit_char d = char_of (48 + d)"

fun show_nat :: "nat \<Rightarrow> string" where
  "show_nat n = (if n < 10 then [digit_char n] else show_nat (n div 10) @ [digit_char (n mod 10)])"

declare show_nat.simps [simp del]

definition show_int :: "int \<Rightarrow> string" where
  "show_int i = (if i < 0 then CHR ''-'' # show_nat (nat (- i)) else show_nat (nat i))"

fun show_num :: "jsnum \<Rightarrow> string" where
  "show_num (Fin i) = show_int i"
| "show_num PInf = ''Infinity''"
| "show_num NInf = ''-Infinity''"
| "show_num NaN = ''NaN''"

section \<open>The collaborators: server and writer\<close>

type_synonym bytes = "8 word list"

text \<open>What a collaborator throws: a \<^verbatim>\<open>Response\<close> with its status, or anything else.\<close>

datatype thrown = ThrownResponse int | ThrownOther string

text \<open>
  Every call the program makes to the outside, in the order in which the calls return: the
  metadata probe, the call of the configured count function, a ranged request with its
  \<^verbatim>\<open>Range\<close> header, a \<^verbatim>\<open>writeAt\<close> with its buffer and offset.
\<close>

datatype event =
    Head
  | CallPartDeterminer jsnum
  | Get string
  | WriteAt bytes jsnum

type_synonym trace = "event list"

datatype head_outcome =
    HeadThrows thrown
  | HeadOk "string option"

datatype get_outcome =
    GetThrows thrown
  | GetOk int "thrown + bytes"

text \<open>
  The outside world answers each call; its answer may depend on everything that happened
  before. \<open>HeadOk h\<close> carries the \<^verbatim>\<open>content-length\<close> header, \<open>GetOk s b\<close> the status and what
  \<^verbatim>\<open>arrayBuffer()\<close> gives, \<open>writeResult\<close> what \<^verbatim>\<open>writeAt\<close> returns or throws. The writer
  is any implementation of \<^verbatim>\<open>WriteAt\<close>; the file writer of file\_writer.ts returns the count
  of \<^verbatim>\<open>fs.writeSync\<close> and throws when the file cannot be opened or written.
\<close>

record env =
  headResponse :: "trace \<Rightarrow> head_outcome"
  getResponse :: "trace \<Rightarrow> string \<Rightarrow> get_outcome"
  writeResult :: "trace \<Rightarrow> bytes \<Rightarrow> jsnum \<Rightarrow> thrown + int"

section \<open>Segments (download\_chunk.ts)\<close>

text \<open>
  \<^verbatim>\<open>DownloadChunk\<close>: \<open>start\<close>, \<open>size\<close> and \<open>current\<close>. The writer is the environment's.
  \<open>current\<close> starts at the integer the constructor is given and only grows by the integers
  the writer returns.
\<close>

record chunk =
  start :: jsnum
  size :: jsnum
  current :: int

definition getStartOffset :: "chunk \<Rightarrow> jsnum" where
  "getStartOffset c = start c"

text \<open>
  \<^verbatim>\<open>write(p)\<close>: returns 0 when \<^verbatim>\<open>current >= size\<close>; otherwise calls the writer at
  \<^verbatim>\<open>start + current\<close> and adds its count to \<open>current\<close>. A writer that throws leaves the
  segment as it was.
\<close>

definition write_chunk :: "env \<Rightarrow> chunk \<Rightarrow> bytes \<Rightarrow> trace \<Rightarrow> (thrown + int) \<times> chunk \<times> trace" where
  "write_chunk e c p tr =
     (if jle (size c) (Fin (current c)) then (Inr 0, c, tr)
      else
        let off = jadd (start c) (Fin (current c)) in
        (case writeResult e tr p off of
           Inl t \<Rightarrow> (Inl t, c, tr @ [WriteAt p off])
         | Inr n \<Rightarrow> (Inr n, c\<lparr>current := current c + n\<rparr>, tr @ [WriteAt p off])))"

text \<open>\<^verbatim>\<open>getRange()\<close>: \<^verbatim>\<open>`bytes=${start}-${start + size - 1}`\<close>.\<close>

definition getRange :: "chunk \<Rightarrow> string" where
  "getRange c =
     ''bytes='' @ show_num (start c) @ ''-'' @ show_num (jsub (jadd (start c) (size c)) (Fin 1))"

section \<open>Configuration (interface.ts)\<close>

text \<open>
  \<^verbatim>\<open>DownloaderConfig\<close>. The retry bound, the concurrency bound and the results of the two
  configured functions are the integers the user supplies; \<open>chunkSizeB\<close> is also written by the
  program, with the result of a division.
\<close>

record config =
  maxRetries :: int
  maxConcurrentDownloads :: int
  partDeterminer :: "jsnum \<Rightarrow> int"
  chunkSizeDeterminer :: "jsnum \<Rightarrow> int"
  chunkSizeB :: jsnum

section \<open>Errors\<close>

text \<open>
  One constructor for each \<^verbatim>\<open>new Error(...)\<close> of the program, in the order of the source; a
  wrapping error carries the error it wraps, and \<open>Thrown\<close> is what a collaborator threw. The
  URL and the path that the messages quote are fixed during a download and left out.
\<close>

datatype error =
    FileNotFound
  | AccessDenied
  | Unauthorized
  | RangeNotSatisfiable
  | ContentLengthStatus int
  | ContentLengthError thrown
  | FileSizeError error
  | RangeUnsupported
  | PartStatus int
  | Thrown thrown
  | PartError error
  | BatchError error
  | DownloadError error

section \<open>Size discovery (downloader.ts)\<close>

text \<open>
  \<^verbatim>\<open>getContentLength()\<close>: the header of the probe, or \<^verbatim>\<open>'0'\<close> when it is absent or empty;
  what the probe throws is classified by its status.
\<close>

definition getContentLength :: "env \<Rightarrow> trace \<Rightarrow> (error + string) \<times> trace" where
  "getContentLength e tr =
     (case headResponse e tr of
        HeadOk h \<Rightarrow>
          (Inr (case h of None \<Rightarrow> ''0'' | Some s \<Rightarrow> if s = [] then ''0'' else s), tr @ [Head])
      | HeadThrows (ThrownResponse st) \<Rightarrow>
          (Inl (if st = 404 then FileNotFound
                else if st = 403 then AccessDenied
                else if st = 401 then Unauthorized
                else if st = 416 then RangeNotSatisfiable
                else ContentLengthStatus st), tr @ [Head])
      | HeadThrows t \<Rightarrow> (Inl (ContentLengthError t), tr @ [Head]))"

text \<open>
  \<^verbatim>\<open>parseInt(s)\<close> with no radix: leading white space is skipped, then an optional sign, then
  an optional \<^verbatim>\<open>0x\<close> that selects base 16; the longest run of digits of the base is read, and
  the result is \<open>NaN\<close> when there is none.
\<close>

definition is_space :: "char \<Rightarrow> bool" where
  "is_space c = (c \<in> set [CHR '' '', CHR 0x09, CHR 0x0A, CHR 0x0B, CHR 0x0C, CHR 0x0D])"

definition digit_val :: "char \<Rightarrow> nat" where
  "digit_val c =
     (let n = of_char c in
      if 48 \<le> n \<and> n \<le> 57 then n - 48
      else if 97 \<le> n \<and> n \<le> 122 then n - 87
      else if 65 \<le> n \<and> n \<le> 90 then n - 55
      else 36)"

definition parseInt :: "string \<Rightarrow> jsnum" where
  "parseInt s =
     (let s1 = dropWhile is_space s;
          neg = (s1 \<noteq> [] \<and> hd s1 = CHR ''-'');
          s2 = (if s1 \<noteq> [] \<and> (hd s1 = CHR ''-'' \<or> hd s1 = CHR ''+'') then tl s1 else s1);
          hex = (take 2 s2 = ''0x'' \<or> take 2 s2 = ''0X'');
          radix = (if hex then 16 else 10);
          s3 = (if hex then drop 2 s2 else s2);
          ds = takeWhile (\<lambda>c. digit_val c < radix) s3;
          v = foldl (\<lambda>acc c. acc * int radix + int (digit_val c)) 0 ds
      in if ds = [] then NaN else Fin (if neg then - v else v))"

text \<open>\<^verbatim>\<open>getFileSize()\<close>.\<close>

definition getFileSize :: "env \<Rightarrow> trace \<Rightarrow> (error + jsnum) \<times> trace" where
  "getFileSize e tr =
     (case getContentLength e tr of
        (Inr contentLength, tr') \<Rightarrow> (Inr (parseInt contentLength), tr')
      | (Inl x, tr') \<Rightarrow> (Inl (FileSizeError x), tr'))"

section \<open>Planning (downloader.ts)\<close>

text \<open>
  \<^verbatim>\<open>determineNumberOfChunks(fileSize)\<close>. The configuration is shared and written in the first
  branch, so the new configuration is returned with the count.
\<close>

definition determineNumberOfChunks :: "config \<Rightarrow> jsnum \<Rightarrow> trace \<Rightarrow> jsnum \<times> config \<times> trace" where
  "determineNumberOfChunks cfg fileSize tr =
     (if jle (chunkSizeB cfg) (Fin 0) then
        let numberOfChunks = Fin (partDeterminer cfg fileSize) in
        (numberOfChunks, cfg\<lparr>chunkSizeB := jceildiv fileSize numberOfChunks\<rparr>,
         tr @ [CallPartDeterminer fileSize])
      else
        (jceildiv fileSize (chunkSizeB cfg), cfg, tr))"

text \<open>The loop of \<^verbatim>\<open>createChunks\<close>, for an integer bound.\<close>

function createChunks_loop :: "config \<Rightarrow> int \<Rightarrow> int \<Rightarrow> chunk list \<Rightarrow> chunk list" where
  "createChunks_loop cfg i numberOfChunks chunks =
     (if i < numberOfChunks then
        createChunks_loop cfg (i + 1) numberOfChunks
          (chunks @ [\<lparr>start = jmul (Fin i) (chunkSizeB cfg), size = chunkSizeB cfg, current = 0\<rparr>])
      else chunks)"
  by pat_completeness auto
termination
  by (relation "measure (\<lambda>(cfg, i, n, chunks). nat (n - i))") auto

declare createChunks_loop.simps [simp del]

text \<open>
  \<^verbatim>\<open>createChunks(numberOfChunks, w)\<close>. \<^verbatim>\<open>0 < NaN\<close> and \<^verbatim>\<open>0 < -Infinity\<close> are false and the
  loop body never runs; \<^verbatim>\<open>i < Infinity\<close> is always true and the loop never ends, which is
  \<open>None\<close>.
\<close>

definition createChunks :: "config \<Rightarrow> jsnum \<Rightarrow> chunk list option" where
  "createChunks cfg numberOfChunks =
     (case numberOfChunks of
        Fin n \<Rightarrow> Some (createChunks_loop cfg 0 n [])
      | PInf \<Rightarrow> None
      | _ \<Rightarrow> Some [])"

text \<open>
  The loop of \<^verbatim>\<open>batchChunks\<close>; \<^verbatim>\<open>chunks.slice(i, i + n)\<close> is \<open>take n (drop i chunks)\<close>. With a
  step of 0 the loop never ends once it is entered, which is \<open>None\<close>.
\<close>

function batchChunks_loop ::
  "chunk list \<Rightarrow> nat \<Rightarrow> nat \<Rightarrow> chunk list list \<Rightarrow> chunk list list option" where
  "batchChunks_loop chunks i numberChunksPerBatch batches =
     (if i < length chunks then
        (if numberChunksPerBatch = 0 then None
         else batchChunks_loop chunks (i + numberChunksPerBatch) numberChunksPerBatch
                (batches @ [take numberChunksPerBatch (drop i chunks)]))
      else Some batches)"
  by pat_completeness auto
termination
  by (relation "measure (\<lambda>(chunks, i, n, batches). length chunks - i)") auto

declare batchChunks_loop.simps [simp del]

text \<open>\<^verbatim>\<open>batchChunks(chunks)\<close>.\<close>

definition batchChunks :: "config \<Rightarrow> chunk list \<Rightarrow> chunk list list option" where
  "batchChunks cfg chunks =
     (if maxConcurrentDownloads cfg \<le> 0 then Some (map (\<lambda>chunk. [chunk]) chunks)
      else if int (length chunks) \<le> maxConcurrentDownloads cfg then
        Some (map (\<lambda>chunk. [chunk]) chunks)
      else
        let numberChunksPerBatch =
              nat (- ((- int (length chunks)) div maxConcurrentDownloads cfg))
        in batchChunks_loop chunks 0 numberChunksPerBatch [])"

section \<open>Execution (downloader.ts)\<close>

text \<open>
  \<^verbatim>\<open>downloadPart(chunk)\<close>. Everything thrown inside the \<^verbatim>\<open>try\<close> is wrapped by the
  \<^verbatim>\<open>catch\<close>.
\<close>

definition downloadPart :: "env \<Rightarrow> chunk \<Rightarrow> trace \<Rightarrow> (error + int) \<times> chunk \<times> trace" where
  "downloadPart e c tr =
     (let range = getRange c; tr' = tr @ [Get range] in
      case getResponse e tr range of
        GetThrows t \<Rightarrow> (Inl (PartError (Thrown t)), c, tr')
      | GetOk status body \<Rightarrow>
          if status = 200 then (Inl (PartError RangeUnsupported), c, tr')
          else if status = 206 then
            (case body of
               Inl t \<Rightarrow> (Inl (PartError (Thrown t)), c, tr')
             | Inr p \<Rightarrow>
                 (case write_chunk e c p tr' of
                    (Inl t, c', tr'') \<Rightarrow> (Inl (PartError (Thrown t)), c', tr'')
                  | (Inr bytesWritten, c', tr'') \<Rightarrow> (Inr bytesWritten, c', tr'')))
          else (Inl (PartError (PartStatus status)), c, tr'))"

text \<open>
  The loop of \<^verbatim>\<open>downloadBatch\<close>: the segments of a batch one after the other, stopping at
  the first that fails.
\<close>

fun downloadBatch_loop ::
  "env \<Rightarrow> chunk list \<Rightarrow> int \<Rightarrow> trace \<Rightarrow> (error + int) \<times> chunk list \<times> trace" where
  "downloadBatch_loop e [] writtenBytes tr = (Inr writtenBytes, [], tr)"
| "downloadBatch_loop e (c # cs) writtenBytes tr =
     (case downloadPart e c tr of
        (Inl x, c', tr') \<Rightarrow> (Inl x, c' # cs, tr')
      | (Inr bytesWritten, c', tr') \<Rightarrow>
          (case downloadBatch_loop e cs (writtenBytes + bytesWritten) tr' of
             (r, cs', tr'') \<Rightarrow> (r, c' # cs', tr'')))"

definition downloadBatch :: "env \<Rightarrow> chunk list \<Rightarrow> trace \<Rightarrow> (error + int) \<times> chunk list \<times> trace" where
  "downloadBatch e batch tr =
     (case downloadBatch_loop e batch 0 tr of
        (Inl x, batch', tr') \<Rightarrow> (Inl (BatchError x), batch', tr')
      | (Inr writtenBytes, batch', tr') \<Rightarrow> (Inr writtenBytes, batch', tr'))"

text \<open>
  One attempt: \<^verbatim>\<open>batches.map((batch) => this.downloadBatch(batch))\<close> under
  \<^verbatim>\<open>Promise.all\<close>. The batches share nothing but the outside world, and a failing request
  changes no segment; the model fixes the schedule in which the batches run one after the
  other in the order of the list, each up to its first failure, and the rejection that
  \<^verbatim>\<open>Promise.all\<close> reports is that of the first failing batch of the list.
\<close>

fun runBatches ::
  "env \<Rightarrow> chunk list list \<Rightarrow> trace \<Rightarrow> (error + int) list \<times> chunk list list \<times> trace" where
  "runBatches e [] tr = ([], [], tr)"
| "runBatches e (b # bs) tr =
     (case downloadBatch e b tr of
        (r, b', tr') \<Rightarrow>
          (case runBatches e bs tr' of
             (rs, bs', tr'') \<Rightarrow> (r # rs, b' # bs', tr'')))"

fun promise_all :: "(error + int) list \<Rightarrow> error + int list" where
  "promise_all [] = Inr []"
| "promise_all (Inl x # rs) = Inl x"
| "promise_all (Inr n # rs) =
     (case promise_all rs of Inl x \<Rightarrow> Inl x | Inr ns \<Rightarrow> Inr (n # ns))"

text \<open>
  The retry loop of \<^verbatim>\<open>download()\<close>, from the value \<open>i\<close> of its counter: the variables
  \<open>writtenBytes\<close> and \<open>error\<close>, the segments (the objects held by \<open>batches\<close>) and the trace are
  its state.
\<close>

function retry_loop ::
  "env \<Rightarrow> config \<Rightarrow> int \<Rightarrow> chunk list list \<Rightarrow> int \<Rightarrow> error option \<Rightarrow> trace
     \<Rightarrow> int \<times> error option \<times> chunk list list \<times> trace" where
  "retry_loop e cfg i batches writtenBytes err tr =
     (if i < maxRetries cfg then
        (case runBatches e batches tr of
           (results, batches', tr') \<Rightarrow>
             (case promise_all results of
                Inr ns \<Rightarrow> (foldl (+) 0 ns, None, batches', tr')
              | Inl x \<Rightarrow> retry_loop e cfg (i + 1) batches' writtenBytes (Some x) tr'))
      else (writtenBytes, err, batches, tr))"
  by pat_completeness auto
termination
  by (relation "measure (\<lambda>(e, cfg, i, batches, w, err, tr). nat (maxRetries cfg - i))") auto

declare retry_loop.simps [simp del]

text \<open>
  \<^verbatim>\<open>DownloadImplementation.download()\<close>. The result is the promise's outcome, the shared
  configuration as the call leaves it, and the trace; \<open>None\<close> when the call never returns.
\<close>

definition download :: "env \<Rightarrow> config \<Rightarrow> trace \<Rightarrow> ((error + int) \<times> config \<times> trace) option" where
  "download e cfg tr =
     (case getFileSize e tr of
        (Inl x, tr1) \<Rightarrow> Some (Inl (DownloadError x), cfg, tr1)
      | (Inr fileSize, tr1) \<Rightarrow>
          (case determineNumberOfChunks cfg fileSize tr1 of
             (numberOfChunks, cfg1, tr2) \<Rightarrow>
               (case createChunks cfg1 numberOfChunks of
                  None \<Rightarrow> None
                | Some chunks \<Rightarrow>
                    (case batchChunks cfg1 chunks of
                       None \<Rightarrow> None
                     | Some batches \<Rightarrow>
                         (case retry_loop e cfg1 0 batches 0 None tr2 of
                            (writtenBytes, Some x, batches', tr3) \<Rightarrow>
                              Some (Inl (DownloadError x), cfg1, tr3)
                          | (writtenBytes, None, batches', tr3) \<Rightarrow>
                              Some (Inr writtenBytes, cfg1, tr3))))))"

text \<open>
  \<^verbatim>\<open>Downloader.download(url, filePath)\<close>: a new implementation object on the downloader's
  own configuration; a failure is wrapped once more, with the same message.
\<close>

definition Downloader_download ::
  "env \<Rightarrow> config \<Rightarrow> trace \<Rightarrow> ((error + int) \<times> config \<times> trace) option" where
  "Downloader_download e cfg tr =
     (case download e cfg tr of
        None \<Rightarrow> None
      | Some (Inl x, cfg', tr') \<Rightarrow> Some (Inl (DownloadError x), cfg', tr')
      | Some (Inr n, cfg', tr') \<Rightarrow> Some (Inr n, cfg', tr'))"

text \<open>\<^verbatim>\<open>SizeUnit\<close> and \<^verbatim>\<open>defaultDownloaderConfig()\<close>.\<close>

definition KB :: int where "KB = 1024"
definition MB :: int where "MB = 1024 * 1024"
definition GB :: int where "GB = 1024 * 1024 * 1024"

definition defaultDownloaderConfig :: config where
  "defaultDownloaderConfig =
     \<lparr>maxRetries = 3,
      maxConcurrentDownloads = 32,
      partDeterminer = (\<lambda>fileSize.
        if jlt fileSize (Fin (1 * MB)) then 1
        else if jlt fileSize (Fin (10 * MB)) then 4
        else if jlt fileSize (Fin (100 * MB)) then 16
        else 32),
      chunkSizeDeterminer = (\<lambda>fileSize.
        if jlt fileSize (Fin (1 * MB)) then 1 * MB
        else if jlt fileSize (Fin (10 * MB)) then 2 * MB
        else if jlt fileSize (Fin (100 * MB)) then 10 * MB
        else 20 * MB),
      chunkSizeB = Fin (- 1)\<rparr>"

section \<open>Notions used to state the properties\<close>

text \<open>The bounds on a segment's progress: \<open>0 \<le> current \<le> size\<close>.\<close>

definition chunk_inv :: "chunk \<Rightarrow> bool" where
  "chunk_inv c = (0 \<le> current c \<and> jle (Fin (current c)) (size c))"


text \<open>The calls a retry loop makes: ranged requests and writes.\<close>

definition is_transfer :: "event \<Rightarrow> bool" where
  "is_transfer ev = (case ev of Get r \<Rightarrow> True | WriteAt p off \<Rightarrow> True | _ \<Rightarrow> False)"

text \<open>A writer that never reports a negative count.\<close>

definition nonneg_writer :: "env \<Rightarrow> bool" where
  "nonneg_writer e = (\<forall>tr p off n. writeResult e tr p off = Inr n \<longrightarrow> 0 \<le> n)"

text \<open>
  A segment \<open>c'\<close> is the segment \<open>c\<close> after some calls of \<open>write\<close>: the same \<open>start\<close> and
  \<open>size\<close>; a \<open>current\<close> that has not gone down, for a writer that reports no negative count;
  and no change at all when \<open>c\<close> was already full.
\<close>

definition carried_over :: "env \<Rightarrow> chunk \<Rightarrow> chunk \<Rightarrow> bool" where
  "carried_over e c c' =
     (start c' = start c \<and> size c' = size c
      \<and> (nonneg_writer e \<longrightarrow> current c \<le> current c')
      \<and> (jle (size c) (Fin (current c)) \<longrightarrow> c' = c))"

text \<open>The second trace is the first followed by ranged requests and writes only.\<close>

definition extends_by_transfers :: "trace \<Rightarrow> trace \<Rightarrow> bool" where
  "extends_by_transfers tr tr' = (\<exists>ext. tr' = tr @ ext \<and> list_all is_transfer ext)"

text \<open>
  The segments and the trace after \<open>k\<close> attempts run one after the other on the same batches,
  whatever their outcome, and the outcome of the attempt that comes after \<open>k\<close> attempts: the
  value with which \<^verbatim>\<open>Promise.all\<close> settles.
\<close>

fun attempts_state :: "env \<Rightarrow> nat \<Rightarrow> chunk list list \<Rightarrow> trace \<Rightarrow> chunk list list \<times> trace" where
  "attempts_state e 0 bs tr = (bs, tr)"
| "attempts_state e (Suc k) bs tr =
     (case runBatches e bs tr of (rs, bs', tr') \<Rightarrow> attempts_state e k bs' tr')"

declare attempts_state.simps [simp del]



section \<open>Scenarios\<close>

text \<open>
  A writer that reports the length of the buffer it was given, as the file writer does when
  the whole buffer reaches the file; the server has no \<^verbatim>\<open>content-length\<close> and answers every
  ranged request with status 206 and an empty body.
\<close>

definition plain_env :: env where
  "plain_env =
     \<lparr>headResponse = (\<lambda>tr. HeadOk None),
      getResponse = (\<lambda>tr range. GetOk 206 (Inr [])),
      writeResult = (\<lambda>tr p off. Inr (int (length p)))\<rparr>"

text \<open>A segment of 5 bytes at offset 0, and the same segment once it is full.\<close>

definition five_byte_chunk :: chunk where
  "five_byte_chunk = \<lparr>start = Fin 0, size = Fin 5, current = 0\<rparr>"

definition full_chunk :: chunk where
  "full_chunk = \<lparr>start = Fin 0, size = Fin 5, current = 5\<rparr>"

text \<open>The default configuration with a fixed segment size of 100 bytes.\<close>

definition fixed100_config :: config where
  "fixed100_config = defaultDownloaderConfig\<lparr>chunkSizeB := Fin 100\<rparr>"

text \<open>Ten segments of 100 bytes each.\<close>

definition ten_chunks :: "chunk list" where
  "ten_chunks = map (\<lambda>i. \<lparr>start = Fin (int i * 100), size = Fin 100, current = 0\<rparr>) [0..<10]"

text \<open>A server that answers every ranged request with 206 and 3 bytes; the writer throws.\<close>

definition failing_writer_env :: env where
  "failing_writer_env =
     \<lparr>headResponse = (\<lambda>tr. HeadOk (Some ''5'')),
      getResponse = (\<lambda>tr range. GetOk 206 (Inr [1, 2, 3])),
      writeResult = (\<lambda>tr p off. Inl (ThrownOther ''Failed to write to file''))\<rparr>"

text \<open>
  A resource of 200 bytes. The first request for the bytes 100 to 199 is answered with status
  500; every other request is answered with 206 and 100 bytes.
\<close>

definition flaky_env :: env where
  "flaky_env =
     \<lparr>headResponse = (\<lambda>tr. HeadOk (Some ''200'')),
      getResponse = (\<lambda>tr range.
        if range = ''bytes=100-199'' \<and> Get ''bytes=100-199'' \<notin> set tr
        then GetOk 500 (Inr [])
        else GetOk 206 (Inr (replicate 100 0))),
      writeResult = (\<lambda>tr p off. Inr (int (length p)))\<rparr>"

text \<open>A resource of 200 bytes on a server that answers every ranged request with 500.\<close>

definition always_500_env :: env where
  "always_500_env =
     \<lparr>headResponse = (\<lambda>tr. HeadOk (Some ''200'')),
      getResponse = (\<lambda>tr range. GetOk 500 (Inr [])),
      writeResult = (\<lambda>tr p off. Inr (int (length p)))\<rparr>"

text \<open>
  A server that reports no \<^verbatim>\<open>content-length\<close> and ignores the \<^verbatim>\<open>Range\<close> header: every
  request is answered with status 200.
\<close>

definition ignores_range_env :: env where
  "ignores_range_env =
     \<lparr>headResponse = (\<lambda>tr. HeadOk None),
      getResponse = (\<lambda>tr range. GetOk 200 (Inr [])),
      writeResult = (\<lambda>tr p off. Inr (int (length p)))\<rparr>"




section \<open>Planning: segment count and segments\<close>

lemma show_int_eval:
  "show_int 0 = ''0''" "show_int 99 = ''99''" "show_int 100 = ''100''"
  "show_int 400 = ''400''" "show_int 499 = ''499''" "show_int (- 1) = ''-1''"
  by code_simp+

lemma createChunks_loop_eq:
  "createChunks_loop cfg i n chunks =
     chunks @ map (\<lambda>j. \<lparr>start = jmul (Fin j) (chunkSizeB cfg), size = chunkSizeB cfg,
                         current = 0\<rparr>) [i..n - 1]"
proof (induction cfg i n chunks rule: createChunks_loop.induct)
  case (1 cfg i n chunks)
  show ?case
  proof (cases "i < n")
    case True
    then have "[i..n - 1] = i # [i + 1..n - 1]"
      by (simp add: upto_rec1)
    with True 1 show ?thesis by (simp add: createChunks_loop.simps[of cfg i])
  next
    case False
    then show ?thesis by (simp add: createChunks_loop.simps[of cfg i])
  qed
qed

lemma createChunks_Fin:
  "createChunks cfg (Fin n) =
     Some (map (\<lambda>j. \<lparr>start = jmul (Fin j) (chunkSizeB cfg), size = chunkSizeB cfg,
                       current = 0\<rparr>) [0..n - 1])"
  by (simp add: createChunks_def createChunks_loop_eq)

lemma createChunks_members:
  "createChunks cfg numberOfChunks = Some cs \<Longrightarrow> c \<in> set cs \<Longrightarrow>
     size c = chunkSizeB cfg \<and> current c = 0"
  by (cases numberOfChunks) (auto simp: createChunks_def createChunks_loop_eq)







section \<open>Segments: the bounds on progress\<close>

lemma write_full:
  "jle (size c) (Fin (current c)) \<Longrightarrow> write_chunk e c p tr = (Inr 0, c, tr)"
  by (simp add: write_chunk_def)

text \<open>
  Claim C7, as the code has it. A segment that \<open>createChunks\<close> builds with a segment size
  that is not negative starts within \<open>0 \<le> current \<le> size\<close>; a call of \<open>write\<close> keeps the
  segment within these bounds when the count \<open>n\<close> that the writer reports satisfies
  \<open>0 \<le> n\<close> and \<open>current + n \<le> size\<close>; and a call of \<open>write\<close> on a segment with
  \<open>current \<ge> size\<close> returns 0, calls no writer and leaves the segment as it is.
\<close>

theorem write_keeps_bounds:
  "(createChunks cfg numberOfChunks = Some cs \<longrightarrow> jle (Fin 0) (chunkSizeB cfg) \<longrightarrow>
      (\<forall>c \<in> set cs. chunk_inv c))
   \<and> (chunk_inv c \<longrightarrow>
        (\<forall>n. writeResult e tr p (jadd (start c) (Fin (current c))) = Inr n \<longrightarrow>
              0 \<le> n \<and> jle (Fin (current c + n)) (size c)) \<longrightarrow>
        chunk_inv (fst (snd (write_chunk e c p tr))))
   \<and> (jle (size d) (Fin (current d)) \<longrightarrow> write_chunk e d q tr = (Inr 0, d, tr))"
proof (intro conjI impI ballI)
  fix c'
  assume "createChunks cfg numberOfChunks = Some cs" "jle (Fin 0) (chunkSizeB cfg)"
    "c' \<in> set cs"
  then show "chunk_inv c'"
    using createChunks_members[of cfg numberOfChunks cs c'] by (simp add: chunk_inv_def)
next
  assume inv: "chunk_inv c"
    and w: "\<forall>n. writeResult e tr p (jadd (start c) (Fin (current c))) = Inr n \<longrightarrow>
              0 \<le> n \<and> jle (Fin (current c + n)) (size c)"
  show "chunk_inv (fst (snd (write_chunk e c p tr)))"
    using inv w by (auto simp: write_chunk_def chunk_inv_def Let_def split: sum.splits)
next
  assume "jle (size d) (Fin (current d))"
  then show "write_chunk e d q tr = (Inr 0, d, tr)" by (rule write_full)
qed

theorem write_keeps_bounds_witness:
  "createChunks fixed100_config (Fin 1) = Some [\<lparr>start = Fin 0, size = Fin 100, current = 0\<rparr>]
   \<and> jle (Fin 0) (chunkSizeB fixed100_config)
   \<and> chunk_inv \<lparr>start = Fin 0, size = Fin 100, current = 0\<rparr>
   \<and> chunk_inv five_byte_chunk
   \<and> writeResult plain_env [] [1, 2, 3] (Fin 0) = Inr 3
   \<and> chunk_inv (fst (snd (write_chunk plain_env five_byte_chunk [1, 2, 3] [])))
   \<and> jle (size full_chunk) (Fin (current full_chunk))
   \<and> write_chunk plain_env full_chunk [1, 2, 3] [] = (Inr 0, full_chunk, [])"
proof -
  have mk: "createChunks fixed100_config (Fin 1) =
      Some [\<lparr>start = Fin 0, size = Fin 100, current = 0\<rparr>]"
    by (simp add: createChunks_Fin fixed100_config_def upto_rec1)
  have nonneg: "jle (Fin 0) (chunkSizeB fixed100_config)"
    by (simp add: fixed100_config_def)
  have inv: "chunk_inv five_byte_chunk"
    by (simp add: chunk_inv_def five_byte_chunk_def)
  have wr: "writeResult plain_env [] [1, 2, 3] (Fin 0) = Inr 3"
    by (simp add: plain_env_def)
  have count: "\<forall>n. writeResult plain_env [] [1, 2, 3]
        (jadd (start five_byte_chunk) (Fin (current five_byte_chunk))) = Inr n \<longrightarrow>
      0 \<le> n \<and> jle (Fin (current five_byte_chunk + n)) (size five_byte_chunk)"
    by (simp add: plain_env_def five_byte_chunk_def)
  have full: "jle (size full_chunk) (Fin (current full_chunk))"
    by (simp add: full_chunk_def)
  show ?thesis
    using write_keeps_bounds[of fixed100_config "Fin 1"
        "[\<lparr>start = Fin 0, size = Fin 100, current = 0\<rparr>]" five_byte_chunk plain_env "[]"
        "[1, 2, 3]" full_chunk "[1, 2, 3]"]
      mk nonneg inv wr count full
    by simp
qed

text \<open>
  Claim C7 as it is written fails: nothing bounds the count that the writer reports. A
  buffer of 10 bytes written to a segment of 5 bytes moves \<open>current\<close> to 10.
\<close>

theorem write_exceeds_size:
  "chunk_inv five_byte_chunk
   \<and> write_chunk plain_env five_byte_chunk (replicate 10 0) [] =
       (Inr 10, \<lparr>start = Fin 0, size = Fin 5, current = 10\<rparr>, [WriteAt (replicate 10 0) (Fin 0)])
   \<and> \<not> chunk_inv (fst (snd (write_chunk plain_env five_byte_chunk (replicate 10 0) [])))"
  by (simp add: chunk_inv_def five_byte_chunk_def write_chunk_def plain_env_def)

section \<open>Planning: batches\<close>

lemma batchChunks_loop_props:
  assumes "0 < m"
  shows "\<exists>bs. batchChunks_loop chunks i m acc = Some (acc @ bs)
     \<and> concat bs = drop i chunks
     \<and> (\<forall>b \<in> set bs. b \<noteq> [] \<and> length b \<le> m)
     \<and> (\<forall>b \<in> set (butlast bs). length b = m)
     \<and> m * length bs < (length chunks - i) + m"
  using assms
proof (induction chunks i m acc rule: batchChunks_loop.induct)
  case (1 chunks i m acc)
  show ?case
  proof (cases "i < length chunks")
    case False
    then show ?thesis
      using "1.prems" by (simp add: batchChunks_loop.simps[of chunks i])
  next
    case True
    let ?b = "take m (drop i chunks)"
    from "1.prems" have m0: "m \<noteq> 0" by simp
    from "1.IH"[OF True m0 "1.prems"] obtain bs where
      bs: "batchChunks_loop chunks (i + m) m (acc @ [?b]) = Some ((acc @ [?b]) @ bs)"
          "concat bs = drop (i + m) chunks"
          "\<forall>b \<in> set bs. b \<noteq> [] \<and> length b \<le> m"
          "\<forall>b \<in> set (butlast bs). length b = m"
          "m * length bs < (length chunks - (i + m)) + m"
      by blast
    have run: "batchChunks_loop chunks i m acc = Some (acc @ (?b # bs))"
      using True m0 bs(1) by (simp add: batchChunks_loop.simps[of chunks i])
    have cat: "concat (?b # bs) = drop i chunks"
    proof -
      have "take m (drop i chunks) @ drop m (drop i chunks) = drop i chunks"
        by (rule append_take_drop_id)
      moreover have "drop m (drop i chunks) = drop (i + m) chunks"
        by (simp add: add.commute)
      ultimately show ?thesis using bs(2) by simp
    qed
    have b_ne: "?b \<noteq> []" using True "1.prems" by simp
    have b_le: "length ?b \<le> m" by simp
    have empty_tail: "bs = []" if "length chunks \<le> i + m"
    proof (rule ccontr)
      assume "bs \<noteq> []"
      then obtain b where "b \<in> set bs" by (cases bs) auto
      with bs(3) have "b \<noteq> []" by blast
      with \<open>b \<in> set bs\<close> have "concat bs \<noteq> []" by auto
      with bs(2) that show False by simp
    qed
    have but: "\<forall>b \<in> set (butlast (?b # bs)). length b = m"
    proof (cases "bs = []")
      case True
      then show ?thesis by simp
    next
      case False
      with empty_tail have "i + m < length chunks" by (cases "length chunks \<le> i + m") auto
      then have "length ?b = m" by simp
      with bs(4) False show ?thesis by simp
    qed
    have cnt: "m * length (?b # bs) < (length chunks - i) + m"
    proof (cases "length chunks \<le> i + m")
      case True
      with empty_tail have "bs = []" by simp
      with \<open>i < length chunks\<close> show ?thesis by simp
    next
      case False
      with bs(5) show ?thesis by simp
    qed
    have all: "\<forall>b \<in> set (?b # bs). b \<noteq> [] \<and> length b \<le> m"
      using b_ne b_le bs(3) by simp
    show ?thesis
      using run cat all but cnt by blast
  qed
qed

lemma ceil_facts:
  fixes n k :: int
  assumes "0 < k" "k < n"
  shows "0 < - ((- n) div k)" "n \<le> k * (- ((- n) div k))"
proof -
  have "(- n) div k * k \<le> - n"
  proof -
    have "- n = (- n) div k * k + (- n) mod k" by simp
    moreover have "0 \<le> (- n) mod k" using assms(1) by simp
    ultimately show ?thesis by linarith
  qed
  then show cover: "n \<le> k * (- ((- n) div k))" by (simp add: algebra_simps)
  show "0 < - ((- n) div k)"
  proof (rule ccontr)
    assume "\<not> 0 < - ((- n) div k)"
    then have "- ((- n) div k) \<le> 0" by simp
    with assms(1) have "k * (- ((- n) div k)) \<le> 0"
      by (simp add: mult_le_0_iff)
    with cover assms show False by linarith
  qed
qed

text \<open>
  Claim C4. For a list of \<open>n\<close> segments and a concurrency bound \<open>k\<close>: when \<open>k \<le> 0\<close> or
  \<open>n \<le> k\<close>, \<open>batchChunks\<close> yields the \<open>n\<close> singleton batches in the order of the list; when
  \<open>0 < k < n\<close>, it yields at most \<open>k\<close> batches whose concatenation is the list, each of them of
  size \<open>\<lceil>n / k\<rceil>\<close> except the last, which is not empty and not larger.
\<close>

theorem batchChunks_partition:
  "(maxConcurrentDownloads cfg \<le> 0 \<or> int (length chunks) \<le> maxConcurrentDownloads cfg \<longrightarrow>
      batchChunks cfg chunks = Some (map (\<lambda>c. [c]) chunks))
   \<and> (0 < maxConcurrentDownloads cfg \<and> maxConcurrentDownloads cfg < int (length chunks) \<longrightarrow>
      (\<exists>bs. batchChunks cfg chunks = Some bs
         \<and> concat bs = chunks
         \<and> int (length bs) \<le> maxConcurrentDownloads cfg
         \<and> (\<forall>b \<in> set (butlast bs).
               int (length b) = \<lceil>real (length chunks) / real_of_int (maxConcurrentDownloads cfg)\<rceil>)
         \<and> bs \<noteq> [] \<and> last bs \<noteq> []
         \<and> int (length (last bs)) \<le>
               \<lceil>real (length chunks) / real_of_int (maxConcurrentDownloads cfg)\<rceil>))"
proof (intro conjI impI)
  assume "maxConcurrentDownloads cfg \<le> 0 \<or> int (length chunks) \<le> maxConcurrentDownloads cfg"
  then show "batchChunks cfg chunks = Some (map (\<lambda>c. [c]) chunks)"
    by (auto simp: batchChunks_def)
next
  let ?k = "maxConcurrentDownloads cfg"
  let ?n = "int (length chunks)"
  let ?m = "nat (- ((- ?n) div ?k))"
  assume k: "0 < ?k \<and> ?k < ?n"
  then have pos: "0 < - ((- ?n) div ?k)" and cover: "?n \<le> ?k * (- ((- ?n) div ?k))"
    using ceil_facts[of ?k ?n] by auto
  have ceil: "\<lceil>real (length chunks) / real_of_int ?k\<rceil> = int ?m"
  proof -
    have "\<lceil>real_of_int ?n / real_of_int ?k\<rceil> = - ((- ?n) div ?k)"
      by (rule ceiling_divide_eq_div)
    then show ?thesis using pos by simp
  qed
  have m: "0 < ?m" using pos by simp
  from batchChunks_loop_props[OF m, of chunks 0 "[]"] obtain bs where
    bs: "batchChunks_loop chunks 0 ?m [] = Some bs"
        "concat bs = chunks"
        "\<forall>b \<in> set bs. b \<noteq> [] \<and> length b \<le> ?m"
        "\<forall>b \<in> set (butlast bs). length b = ?m"
        "?m * length bs < length chunks + ?m"
    by auto
  have run: "batchChunks cfg chunks = Some bs"
    using k bs(1) by (simp add: batchChunks_def Let_def)
  have ne: "bs \<noteq> []" using bs(2) k by auto
  then have lastin: "last bs \<in> set bs" by simp
  have count: "int (length bs) \<le> ?k"
  proof (rule ccontr)
    assume "\<not> int (length bs) \<le> ?k"
    then have "?k + 1 \<le> int (length bs)" by simp
    then have "(?k + 1) * int ?m \<le> int (length bs) * int ?m"
      by (intro mult_right_mono) auto
    moreover from bs(5) have "int (?m * length bs) < int (length chunks + ?m)"
      by (simp only: of_nat_less_iff)
    then have "int ?m * int (length bs) < ?n + int ?m"
      by (simp only: of_nat_mult of_nat_add)
    moreover have "?n \<le> ?k * int ?m" using cover pos by simp
    ultimately show False by (simp add: algebra_simps)
  qed
  have items: "\<forall>b \<in> set (butlast bs). int (length b) = int ?m"
    using bs(4) by (simp only: of_nat_eq_iff)
  have l1: "last bs \<noteq> []" using bs(3) lastin by blast
  have "length (last bs) \<le> ?m" using bs(3) lastin by blast
  then have l2: "int (length (last bs)) \<le> int ?m" by (simp only: of_nat_le_iff)
  show "\<exists>bs. batchChunks cfg chunks = Some bs
         \<and> concat bs = chunks
         \<and> int (length bs) \<le> ?k
         \<and> (\<forall>b \<in> set (butlast bs). int (length b) = \<lceil>real (length chunks) / real_of_int ?k\<rceil>)
         \<and> bs \<noteq> [] \<and> last bs \<noteq> []
         \<and> int (length (last bs)) \<le> \<lceil>real (length chunks) / real_of_int ?k\<rceil>"
    unfolding ceil using run bs(2) count items ne l1 l2 by blast
qed

theorem batchChunks_partition_witness:
  "(- 1::int) \<le> 0
   \<and> batchChunks (defaultDownloaderConfig\<lparr>maxConcurrentDownloads := - 1\<rparr>) ten_chunks =
       Some (map (\<lambda>c. [c]) ten_chunks)
   \<and> (0::int) < 3 \<and> 3 < int (length ten_chunks)
   \<and> (\<exists>bs. batchChunks (defaultDownloaderConfig\<lparr>maxConcurrentDownloads := 3\<rparr>) ten_chunks = Some bs
         \<and> concat bs = ten_chunks \<and> int (length bs) \<le> 3 \<and> bs \<noteq> [] \<and> last bs \<noteq> []
         \<and> int (length (last bs)) \<le> 4)"
proof -
  have len: "length ten_chunks = 10" by (simp add: ten_chunks_def)
  have c: "\<lceil>real (length ten_chunks) / real_of_int 3\<rceil> = 4"
    unfolding len by (simp add: ceiling_eq_iff)
  have a: "batchChunks (defaultDownloaderConfig\<lparr>maxConcurrentDownloads := - 1\<rparr>) ten_chunks =
       Some (map (\<lambda>c. [c]) ten_chunks)"
    using batchChunks_partition[of "defaultDownloaderConfig\<lparr>maxConcurrentDownloads := - 1\<rparr>"
        ten_chunks]
    by simp
  obtain bs where bs:
      "batchChunks (defaultDownloaderConfig\<lparr>maxConcurrentDownloads := 3\<rparr>) ten_chunks = Some bs"
      "concat bs = ten_chunks" "int (length bs) \<le> 3" "bs \<noteq> []" "last bs \<noteq> []"
      "int (length (last bs)) \<le> 4"
    using batchChunks_partition[of "defaultDownloaderConfig\<lparr>maxConcurrentDownloads := 3\<rparr>"
        ten_chunks]
    by (auto simp: len c)
  show ?thesis using a bs len by auto
qed

section \<open>Execution: what a step changes\<close>

lemma carried_over_refl: "carried_over e c c"
  by (simp add: carried_over_def)

lemma carried_over_trans:
  "carried_over e a b \<Longrightarrow> carried_over e b c \<Longrightarrow> carried_over e a c"
  by (auto simp: carried_over_def)

lemma extends_refl: "extends_by_transfers tr tr"
  by (simp add: extends_by_transfers_def)

lemma extends_trans:
  "extends_by_transfers a b \<Longrightarrow> extends_by_transfers b c \<Longrightarrow> extends_by_transfers a c"
  by (auto simp: extends_by_transfers_def)

lemma write_chunk_step:
  assumes "write_chunk e c p tr = (r, c', tr')"
  shows "carried_over e c c' \<and> extends_by_transfers tr tr'"
  using assms
  by (auto simp: write_chunk_def carried_over_def extends_by_transfers_def nonneg_writer_def
        is_transfer_def Let_def split: if_splits sum.splits)

lemma extends_Get: "extends_by_transfers tr (tr @ [Get r])"
  by (simp add: extends_by_transfers_def is_transfer_def)

lemma downloadPart_step:
  assumes "downloadPart e c tr = (r, c', tr')"
  shows "carried_over e c c' \<and> extends_by_transfers tr tr'"
proof -
  let ?tr1 = "tr @ [Get (getRange c)]"
  have base: "extends_by_transfers tr ?tr1" by (rule extends_Get)
  show ?thesis
  proof (cases "getResponse e tr (getRange c)")
    case (GetThrows t)
    with assms base show ?thesis
      by (auto simp: downloadPart_def Let_def carried_over_refl)
  next
    case (GetOk status body)
    show ?thesis
    proof (cases "status = 206")
      case False
      with assms GetOk base show ?thesis
        by (auto simp: downloadPart_def Let_def carried_over_refl split: if_splits)
    next
      case True
      show ?thesis
      proof (cases body)
        case (Inl t)
        with assms GetOk True base show ?thesis
          by (auto simp: downloadPart_def Let_def carried_over_refl)
      next
        case (Inr p)
        obtain wr wc wt where w: "write_chunk e c p ?tr1 = (wr, wc, wt)"
          by (cases "write_chunk e c p ?tr1") auto
        from write_chunk_step[OF w] have s: "carried_over e c wc" "extends_by_transfers ?tr1 wt"
          by auto
        from assms GetOk True Inr w have "c' = wc" "tr' = wt"
          by (auto simp: downloadPart_def Let_def split: sum.splits)
        with s base show ?thesis by (auto intro: extends_trans)
      qed
    qed
  qed
qed

lemma downloadBatch_loop_step:
  assumes "downloadBatch_loop e cs w tr = (r, cs', tr')"
  shows "list_all2 (carried_over e) cs cs' \<and> extends_by_transfers tr tr'"
  using assms
proof (induction cs arbitrary: w tr r cs' tr')
  case Nil
  then show ?case by (simp add: extends_refl)
next
  case (Cons c cs)
  obtain pr pc pt where p: "downloadPart e c tr = (pr, pc, pt)"
    by (cases "downloadPart e c tr") auto
  from downloadPart_step[OF p] have s: "carried_over e c pc" "extends_by_transfers tr pt" by auto
  show ?case
  proof (cases pr)
    case (Inl x)
    with Cons.prems p have "cs' = pc # cs" "tr' = pt" by auto
    with s show ?thesis
      by (simp add: list_all2_refl carried_over_refl list.rel_refl)
  next
    case (Inr n)
    obtain lr lcs lt where l: "downloadBatch_loop e cs (w + n) pt = (lr, lcs, lt)"
      by (cases "downloadBatch_loop e cs (w + n) pt") auto
    from Cons.IH[OF l] have ih: "list_all2 (carried_over e) cs lcs" "extends_by_transfers pt lt"
      by auto
    from Cons.prems p Inr l have "cs' = pc # lcs" "tr' = lt" by auto
    with s ih show ?thesis by (auto intro: extends_trans)
  qed
qed

lemma downloadBatch_step:
  assumes "downloadBatch e b tr = (r, b', tr')"
  shows "list_all2 (carried_over e) b b' \<and> extends_by_transfers tr tr'"
proof -
  obtain lr lb lt where l: "downloadBatch_loop e b 0 tr = (lr, lb, lt)"
    by (cases "downloadBatch_loop e b 0 tr") auto
  with assms have "b' = lb" "tr' = lt"
    by (auto simp: downloadBatch_def split: sum.splits)
  with downloadBatch_loop_step[OF l] show ?thesis by simp
qed

lemma runBatches_step:
  assumes "runBatches e bs tr = (rs, bs', tr')"
  shows "list_all2 (list_all2 (carried_over e)) bs bs' \<and> extends_by_transfers tr tr'"
  using assms
proof (induction bs arbitrary: tr rs bs' tr')
  case Nil
  then show ?case by (simp add: extends_refl)
next
  case (Cons b bs)
  obtain r b1 t1 where d: "downloadBatch e b tr = (r, b1, t1)"
    by (cases "downloadBatch e b tr") auto
  obtain rs2 bs2 t2 where rb: "runBatches e bs t1 = (rs2, bs2, t2)"
    by (cases "runBatches e bs t1") auto
  from Cons.prems d rb have eq: "bs' = b1 # bs2" "tr' = t2" by auto
  from downloadBatch_step[OF d] Cons.IH[OF rb] eq show ?case
    by (auto intro: extends_trans)
qed

lemma carried_over_batches_trans:
  "list_all2 (list_all2 (carried_over e)) a b \<Longrightarrow> list_all2 (list_all2 (carried_over e)) b c
     \<Longrightarrow> list_all2 (list_all2 (carried_over e)) a c"
proof -
  assume ab: "list_all2 (list_all2 (carried_over e)) a b"
    and bc: "list_all2 (list_all2 (carried_over e)) b c"
  have inner: "list_all2 (carried_over e) x z"
    if "list_all2 (carried_over e) x y" "list_all2 (carried_over e) y z" for x y z
    using that by (rule list_all2_trans[rotated]) (rule carried_over_trans)
  from ab bc show ?thesis
    by (rule list_all2_trans[rotated]) (rule inner)
qed

lemma retry_loop_step:
  assumes "retry_loop e cfg i bs w err tr = (w', err', bs', tr')"
  shows "list_all2 (list_all2 (carried_over e)) bs bs' \<and> extends_by_transfers tr tr'"
  using assms
proof (induction e cfg i bs w err tr rule: retry_loop.induct)
  case (1 e cfg i bs w err tr)
  show ?case
  proof (cases "i < maxRetries cfg")
    case False
    with "1.prems" have "bs' = bs" "tr' = tr"
      by (simp_all add: retry_loop.simps[of e cfg i])
    then show ?thesis
      by (simp add: extends_refl list.rel_refl carried_over_refl)
  next
    case True
    obtain rs bs1 t1 where rb: "runBatches e bs tr = (rs, bs1, t1)"
      by (cases "runBatches e bs tr") auto
    from runBatches_step[OF rb] have s: "list_all2 (list_all2 (carried_over e)) bs bs1"
        "extends_by_transfers tr t1" by auto
    show ?thesis
    proof (cases "promise_all rs")
      case (Inr ns)
      with "1.prems" True rb have "bs' = bs1" "tr' = t1"
        by (simp_all add: retry_loop.simps[of e cfg i])
      with s show ?thesis by simp
    next
      case (Inl x)
      with "1.prems" True rb
      have next_it: "retry_loop e cfg (i + 1) bs1 w (Some x) t1 = (w', err', bs', tr')"
        by (simp add: retry_loop.simps[of e cfg i])
      from "1.IH"[OF True rb[symmetric] refl Inl next_it] s show ?thesis
        by (auto intro: extends_trans carried_over_batches_trans)
    qed
  qed
qed


section \<open>Fetching one segment\<close>

text \<open>
  Claim C6, as the code has it. Fetching a segment fails with the error of unsupported range
  requests exactly when the status is 200. It succeeds exactly when the status is 206, the
  body can be read, and the segment is full or the writer returns a count. On 206, a segment
  that is not full has the whole body written at \<open>start + current\<close> and the writer's count is
  returned; a full segment returns 0 and nothing is written. Any status other than 200 and 206
  is a failure that carries the status.
\<close>

theorem downloadPart_outcome:
  "(fst (downloadPart e c tr) = Inl (PartError RangeUnsupported)
      \<longleftrightarrow> (\<exists>body. getResponse e tr (getRange c) = GetOk 200 body))
   \<and> ((\<exists>n. fst (downloadPart e c tr) = Inr n)
      \<longleftrightarrow> (\<exists>p. getResponse e tr (getRange c) = GetOk 206 (Inr p)
             \<and> (jle (size c) (Fin (current c))
                \<or> (\<exists>n. writeResult e (tr @ [Get (getRange c)]) p
                           (jadd (start c) (Fin (current c))) = Inr n))))
   \<and> (getResponse e tr (getRange c) = GetOk 206 (Inr p) \<longrightarrow> \<not> jle (size c) (Fin (current c)) \<longrightarrow>
        writeResult e (tr @ [Get (getRange c)]) p (jadd (start c) (Fin (current c))) = Inr n \<longrightarrow>
        downloadPart e c tr =
          (Inr n, c\<lparr>current := current c + n\<rparr>,
           tr @ [Get (getRange c), WriteAt p (jadd (start c) (Fin (current c)))]))
   \<and> (getResponse e tr (getRange c) = GetOk 206 (Inr p) \<longrightarrow> jle (size c) (Fin (current c)) \<longrightarrow>
        downloadPart e c tr = (Inr 0, c, tr @ [Get (getRange c)]))
   \<and> (getResponse e tr (getRange c) = GetOk status body \<longrightarrow> status \<noteq> 200 \<longrightarrow> status \<noteq> 206 \<longrightarrow>
        downloadPart e c tr = (Inl (PartError (PartStatus status)), c, tr @ [Get (getRange c)]))"
proof (intro conjI)
  show "fst (downloadPart e c tr) = Inl (PartError RangeUnsupported)
      \<longleftrightarrow> (\<exists>body. getResponse e tr (getRange c) = GetOk 200 body)"
    by (auto simp: downloadPart_def Let_def write_chunk_def
          split: get_outcome.splits sum.splits if_splits)
  show "(\<exists>n. fst (downloadPart e c tr) = Inr n)
      \<longleftrightarrow> (\<exists>p. getResponse e tr (getRange c) = GetOk 206 (Inr p)
             \<and> (jle (size c) (Fin (current c))
                \<or> (\<exists>n. writeResult e (tr @ [Get (getRange c)]) p
                           (jadd (start c) (Fin (current c))) = Inr n)))"
    by (auto simp: downloadPart_def Let_def write_chunk_def
          split: get_outcome.splits sum.splits if_splits)
  show "getResponse e tr (getRange c) = GetOk 206 (Inr p) \<longrightarrow> \<not> jle (size c) (Fin (current c)) \<longrightarrow>
        writeResult e (tr @ [Get (getRange c)]) p (jadd (start c) (Fin (current c))) = Inr n \<longrightarrow>
        downloadPart e c tr =
          (Inr n, c\<lparr>current := current c + n\<rparr>,
           tr @ [Get (getRange c), WriteAt p (jadd (start c) (Fin (current c)))])"
    by (simp add: downloadPart_def Let_def write_chunk_def)
  show "getResponse e tr (getRange c) = GetOk 206 (Inr p) \<longrightarrow> jle (size c) (Fin (current c)) \<longrightarrow>
        downloadPart e c tr = (Inr 0, c, tr @ [Get (getRange c)])"
    by (simp add: downloadPart_def Let_def write_chunk_def)
  show "getResponse e tr (getRange c) = GetOk status body \<longrightarrow> status \<noteq> 200 \<longrightarrow> status \<noteq> 206 \<longrightarrow>
        downloadPart e c tr = (Inl (PartError (PartStatus status)), c, tr @ [Get (getRange c)])"
    by (simp add: downloadPart_def Let_def)
qed

theorem downloadPart_outcome_witness:
  "getResponse flaky_env [Head] (getRange \<lparr>start = Fin 0, size = Fin 100, current = 0\<rparr>) =
       GetOk 206 (Inr (replicate 100 0))
   \<and> \<not> jle (size \<lparr>start = Fin 0, size = Fin 100, current = 0\<rparr>)
            (Fin (current \<lparr>start = Fin 0, size = Fin 100, current = 0\<rparr>))
   \<and> downloadPart flaky_env \<lparr>start = Fin 0, size = Fin 100, current = 0\<rparr> [Head] =
       (Inr 100, \<lparr>start = Fin 0, size = Fin 100, current = 100\<rparr>,
        [Head, Get ''bytes=0-99'', WriteAt (replicate 100 0) (Fin 0)])
   \<and> getResponse plain_env [] (getRange full_chunk) = GetOk 206 (Inr [])
   \<and> jle (size full_chunk) (Fin (current full_chunk))
   \<and> downloadPart plain_env full_chunk [] = (Inr 0, full_chunk, [Get ''bytes=0-4''])
   \<and> getResponse always_500_env [] (getRange five_byte_chunk) = GetOk 500 (Inr [])
   \<and> downloadPart always_500_env five_byte_chunk [] =
       (Inl (PartError (PartStatus 500)), five_byte_chunk, [Get ''bytes=0-4''])"
proof -
  let ?c = "\<lparr>start = Fin 0, size = Fin 100, current = 0\<rparr>"
  have r: "getRange ?c = ''bytes=0-99''" "getRange full_chunk = ''bytes=0-4''"
      "getRange five_byte_chunk = ''bytes=0-4''"
    by code_simp+
  have g: "getResponse flaky_env [Head] (getRange ?c) = GetOk 206 (Inr (replicate 100 0))"
    by (simp add: r flaky_env_def)
  have nf: "\<not> jle (size ?c) (Fin (current ?c))" by simp
  have w: "writeResult flaky_env ([Head] @ [Get (getRange ?c)]) (replicate 100 0)
             (jadd (start ?c) (Fin (current ?c))) = Inr 100"
    by (simp add: flaky_env_def)
  have a: "downloadPart flaky_env ?c [Head] =
       (Inr 100, \<lparr>start = Fin 0, size = Fin 100, current = 100\<rparr>,
        [Head, Get ''bytes=0-99'', WriteAt (replicate 100 0) (Fin 0)])"
    using downloadPart_outcome[of flaky_env ?c "[Head]" "replicate 100 0" 100] g nf w r by simp
  have g2: "getResponse plain_env [] (getRange full_chunk) = GetOk 206 (Inr [])"
    by (simp add: plain_env_def)
  have full: "jle (size full_chunk) (Fin (current full_chunk))" by (simp add: full_chunk_def)
  have b: "downloadPart plain_env full_chunk [] = (Inr 0, full_chunk, [Get ''bytes=0-4''])"
    using downloadPart_outcome[of plain_env full_chunk "[]" "[]"] g2 full r by simp
  have g3: "getResponse always_500_env [] (getRange five_byte_chunk) = GetOk 500 (Inr [])"
    by (simp add: always_500_env_def)
  have c: "downloadPart always_500_env five_byte_chunk [] =
       (Inl (PartError (PartStatus 500)), five_byte_chunk, [Get ''bytes=0-4''])"
    using downloadPart_outcome[of always_500_env five_byte_chunk "[]" _ _ 500 "Inr []"] g3 r by simp
  show ?thesis using g nf a g2 full b g3 c by simp
qed

text \<open>
  Claim C6 as it is written fails: a response with status 206 does not make the fetch
  succeed when the writer throws, and on a full segment the fetch succeeds with nothing
  written.
\<close>

theorem downloadPart_fails_on_206:
  "getResponse failing_writer_env [] (getRange five_byte_chunk) = GetOk 206 (Inr [1, 2, 3])
   \<and> downloadPart failing_writer_env five_byte_chunk [] =
       (Inl (PartError (Thrown (ThrownOther ''Failed to write to file''))), five_byte_chunk,
        [Get ''bytes=0-4'', WriteAt [1, 2, 3] (Fin 0)])
   \<and> getResponse failing_writer_env [] (getRange full_chunk) = GetOk 206 (Inr [1, 2, 3])
   \<and> downloadPart failing_writer_env full_chunk [] = (Inr 0, full_chunk, [Get ''bytes=0-4''])"
  by code_simp

section \<open>The retry loop\<close>



lemma attempts_state_Suc:
  "runBatches e bs tr = (rs, bs1, t1) \<Longrightarrow>
     attempts_state e (Suc k) bs tr = attempts_state e k bs1 t1"
  by (simp add: attempts_state.simps)





lemma download_planned:
  assumes "getFileSize e tr = (Inr fileSize, tr1)"
    and "determineNumberOfChunks cfg fileSize tr1 = (numberOfChunks, cfg1, tr2)"
    and "createChunks cfg1 numberOfChunks = Some chunks"
    and "batchChunks cfg1 chunks = Some batches"
    and "retry_loop e cfg1 0 batches 0 None tr2 = (w, err, batches', tr3)"
  shows "Downloader_download e cfg tr =
     Some (case err of Some x \<Rightarrow> Inl (DownloadError (DownloadError x)) | None \<Rightarrow> Inr w, cfg1, tr3)"
  using assms by (simp add: Downloader_download_def download_def split: option.splits)























section \<open>The whole download\<close>



lemma downloadPart_trace:
  assumes "downloadPart e c tr = (r, c', tr')"
  shows "\<exists>ext. tr' = tr @ Get (getRange c) # ext"
proof -
  let ?tr1 = "tr @ [Get (getRange c)]"
  have "extends_by_transfers ?tr1 tr'"
  proof (cases "getResponse e tr (getRange c)")
    case (GetThrows t)
    with assms show ?thesis by (auto simp: downloadPart_def Let_def extends_refl)
  next
    case (GetOk status body)
    show ?thesis
    proof (cases "status = 206")
      case False
      with assms GetOk show ?thesis
        by (auto simp: downloadPart_def Let_def extends_refl split: if_splits)
    next
      case True
      show ?thesis
      proof (cases body)
        case (Inl t)
        with assms GetOk True show ?thesis by (auto simp: downloadPart_def Let_def extends_refl)
      next
        case (Inr p)
        obtain wr wc wt where w: "write_chunk e c p ?tr1 = (wr, wc, wt)"
          by (cases "write_chunk e c p ?tr1") auto
        from assms GetOk True Inr w have "tr' = wt"
          by (auto simp: downloadPart_def Let_def split: sum.splits)
        with write_chunk_step[OF w] show ?thesis by simp
      qed
    qed
  qed
  then show ?thesis by (auto simp: extends_by_transfers_def)
qed

lemma retry_loop_first_request:
  assumes "0 < maxRetries cfg"
    and "retry_loop e cfg 0 [[c]] w err tr = (w', err', bs', tr')"
  shows "\<exists>ext. tr' = tr @ Get (getRange c) # ext"
proof -
  obtain pr pc pt where p: "downloadPart e c tr = (pr, pc, pt)"
    by (cases "downloadPart e c tr") auto
  from downloadPart_trace[OF p] obtain ext where pt: "pt = tr @ Get (getRange c) # ext" by blast
  obtain rs bs1 t1 where rb: "runBatches e [[c]] tr = (rs, bs1, t1)"
    by (cases "runBatches e [[c]] tr") auto
  with p have t1: "t1 = pt"
    by (cases pr) (auto simp: downloadBatch_def)
  have "extends_by_transfers t1 tr'"
  proof (cases "promise_all rs")
    case (Inr ns)
    with assms rb have "tr' = t1" by (simp add: retry_loop.simps[of e cfg 0])
    then show ?thesis by (simp add: extends_refl)
  next
    case (Inl x)
    with assms rb have "retry_loop e cfg (0 + 1) bs1 w (Some x) t1 = (w', err', bs', tr')"
      by (simp add: retry_loop.simps[of e cfg 0])
    from retry_loop_step[OF this] show ?thesis by simp
  qed
  with t1 pt show ?thesis by (auto simp: extends_by_transfers_def)
qed

lemma parseInt_zero: "parseInt ''0'' = Fin 0"
  by code_simp

text \<open>
  Claim C8, as the code has it. When the probe succeeds and reports no \<^verbatim>\<open>content-length\<close>, an
  empty one or \<^verbatim>\<open>0\<close>, size discovery succeeds with the size 0; with the default configuration
  the download then plans one segment of length 0 and issues the ranged request
  \<^verbatim>\<open>bytes=0--1\<close>.
\<close>

theorem zero_size_is_planned:
  assumes "headResponse e tr = HeadOk h"
    and "h = None \<or> h = Some [] \<or> h = Some ''0''"
  shows "getFileSize e tr = (Inr (Fin 0), tr @ [Head])
     \<and> (\<exists>r cfg' rest. Downloader_download e defaultDownloaderConfig tr =
           Some (r, cfg', tr @ [Head, CallPartDeterminer (Fin 0), Get ''bytes=0--1''] @ rest))"
proof -
  let ?cfg = defaultDownloaderConfig
  let ?c = "\<lparr>start = Fin 0, size = Fin 0, current = 0\<rparr>"
  let ?tr2 = "tr @ [Head, CallPartDeterminer (Fin 0)]"
  have cl: "getContentLength e tr = (Inr ''0'', tr @ [Head])"
    using assms by (auto simp: getContentLength_def)
  then have fs: "getFileSize e tr = (Inr (Fin 0), tr @ [Head])"
    by (simp add: getFileSize_def parseInt_zero)
  have pd: "partDeterminer ?cfg (Fin 0) = 1"
    by (simp add: defaultDownloaderConfig_def MB_def)
  have d: "determineNumberOfChunks ?cfg (Fin 0) (tr @ [Head]) =
      (Fin 1, ?cfg\<lparr>chunkSizeB := Fin 0\<rparr>, ?tr2)"
    using pd by (simp add: determineNumberOfChunks_def Let_def) (simp add: defaultDownloaderConfig_def)
  have cc: "createChunks (?cfg\<lparr>chunkSizeB := Fin 0\<rparr>) (Fin 1) = Some [?c]"
    by (simp add: createChunks_Fin upto_rec1)
  have bc: "batchChunks (?cfg\<lparr>chunkSizeB := Fin 0\<rparr>) [?c] = Some [[?c]]"
    by (simp add: batchChunks_def defaultDownloaderConfig_def)
  obtain w err bs' tr3 where
    rl: "retry_loop e (?cfg\<lparr>chunkSizeB := Fin 0\<rparr>) 0 [[?c]] 0 None ?tr2 = (w, err, bs', tr3)"
    by (cases "retry_loop e (?cfg\<lparr>chunkSizeB := Fin 0\<rparr>) 0 [[?c]] 0 None ?tr2") auto
  have "0 < maxRetries (?cfg\<lparr>chunkSizeB := Fin 0\<rparr>)"
    by (simp add: defaultDownloaderConfig_def)
  from retry_loop_first_request[OF this rl] obtain ext where
    "tr3 = ?tr2 @ Get (getRange ?c) # ext" by blast
  moreover have "getRange ?c = ''bytes=0--1''"
    by (simp add: getRange_def jsub_def show_int_eval)
  ultimately have tr3: "tr3 = tr @ [Head, CallPartDeterminer (Fin 0), Get ''bytes=0--1''] @ ext"
    by simp
  from download_planned[OF fs d cc bc rl] tr3 fs show ?thesis by blast
qed

theorem zero_size_is_planned_witness:
  "headResponse plain_env [] = HeadOk None
   \<and> getFileSize plain_env [] = (Inr (Fin 0), [Head])
   \<and> (\<exists>r cfg' rest. Downloader_download plain_env defaultDownloaderConfig [] =
         Some (r, cfg', [Head, CallPartDeterminer (Fin 0), Get ''bytes=0--1''] @ rest))"
proof -
  have h: "headResponse plain_env [] = HeadOk None" by (simp add: plain_env_def)
  from zero_size_is_planned[OF h] h show ?thesis by simp
qed

text \<open>
  Claim C8 as it is written fails. With no \<^verbatim>\<open>content-length\<close> and the default configuration,
  the download plans a segment and requests it: on a server that ignores the range it is
  rejected after three ranged requests, with the error of unsupported range requests; on a
  server that answers 206 it resolves with 0.
\<close>

theorem zero_size_download_proceeds:
  "headResponse ignores_range_env [] = HeadOk None
   \<and> map_option fst (Downloader_download ignores_range_env defaultDownloaderConfig []) =
       Some (Inl (DownloadError (DownloadError (BatchError (PartError RangeUnsupported)))))
   \<and> map_option (snd \<circ> snd) (Downloader_download ignores_range_env defaultDownloaderConfig []) =
       Some [Head, CallPartDeterminer (Fin 0), Get ''bytes=0--1'', Get ''bytes=0--1'',
             Get ''bytes=0--1'']
   \<and> headResponse plain_env [] = HeadOk None
   \<and> map_option fst (Downloader_download plain_env defaultDownloaderConfig []) = Some (Inr 0)
   \<and> map_option (snd \<circ> snd) (Downloader_download plain_env defaultDownloaderConfig []) =
       Some [Head, CallPartDeterminer (Fin 0), Get ''bytes=0--1'']"
  by code_simp

section \<open>The segment size across downloads\<close>









end
